theory Spec2Isabelle
  imports Main "HOL-Library.Char_ord" "HOL-Library.List_Lexorder" "HOL-Library.Sublist"
    "HOL-Library.Multiset"
begin

section \<open>UWDataset: index construction, oversampling and retrieval\<close>

text \<open>
  A shallow embedding of \<^verbatim>\<open>src/utils/UW_dataset.py\<close>. The class \<^verbatim>\<open>UWDataset\<close> scans split
  directories for one annotation table each, groups the rows by label in an
  insertion-ordered dict, and builds the list \<^verbatim>\<open>self.annotations\<close>: oversampled and expanded
  per image file when \<^verbatim>\<open>train\<close> is true, one entry per row otherwise.

  What lies outside the file is a parameter of the model:
  \<^item> the disk is a list of paths (\<open>files\<close>) and a table reader (\<open>read_csv\<close>);
  \<^item> \<^verbatim>\<open>glob\<close> is evaluated on that list of paths;
  \<^item> \<^verbatim>\<open>random\<close> is a list of raw draws, consumed one per call of \<^verbatim>\<open>randbelow\<close>;
  \<^item> reading an image and running the transform pipeline is one function \<open>decode\<close> from a
    path to a tensor, \<open>None\<close> when \<^verbatim>\<open>cv2.imread\<close> returns \<^verbatim>\<open>None\<close>; it stands for one
    outcome of the pipeline, the draws of the random augmentations included.
  Every exception that leaves a method is a value of \<open>error\<close>.
\<close>

subsection \<open>Errors\<close>

text \<open>
  \<open>SystemExit\<close> is what \<^verbatim>\<open>exit()\<close> raises at line 53; \<open>ParserError\<close> stands for any
  exception of \<^verbatim>\<open>pd.read_csv\<close>; \<open>KeyError\<close> comes from a row subscripted with a column
  the table does not have; \<open>ValueError\<close> from the format code \<^verbatim>\<open>d\<close> on a value that is not
  an integer, from \<^verbatim>\<open>max([])\<close> and from \<^verbatim>\<open>list.index\<close>;
  \<open>IndexError\<close> from a list subscript; \<open>ZeroDivisionError\<close> from \<^verbatim>\<open>//\<close>;
  \<open>TypeError\<close> from subscripting the \<^verbatim>\<open>None\<close> that \<^verbatim>\<open>cv2.imread\<close> returns for an unreadable
  file; \<open>RuntimeError\<close> from \<^verbatim>\<open>torch.stack([])\<close>.
\<close>

datatype error =
  SystemExit | ParserError | KeyError | ValueError | IndexError | ZeroDivisionError
  | TypeError | RuntimeError

subsection \<open>Data\<close>

text \<open>
  A cell of one of the two id columns: an integer, or anything else (the float of a column
  with a blank or a decimal, a string), which the format code \<^verbatim>\<open>d\<close> refuses whatever its
  value.
\<close>

datatype id_cell = IntCell int | OtherCell

text \<open>
  One row of an annotation table, as \<^verbatim>\<open>df.iterrows()\<close> yields it. The three columns the code
  names are \<open>None\<close> when the table has no column of that name; the annotation column holds
  strings. The remaining columns are integers by name (\<open>cells\<close>), where the class
  indicators are looked up; the class names are taken to differ from the three names.
\<close>

record row =
  annotation :: "string option"
  id_rov :: "id_cell option"
  img_id :: "id_cell option"
  cells :: "(string \<times> int) list"

text \<open>The dict appended to \<^verbatim>\<open>annot[label]\<close> at lines 62-63.\<close>

record annot_dict =
  image_root :: string
  row_one_hot :: "int list"

text \<open>
  The dict \<^verbatim>\<open>annot\<close>: Python dicts keep insertion order, and the order of the groups is the
  order of the built list, so it is an association list.
\<close>

type_synonym annot = "(string \<times> annot_dict list) list"

text \<open>
  An element of \<^verbatim>\<open>self.annotations\<close>: \<^verbatim>\<open>'image_path'\<close> is one path in train mode (line 78)
  and a list of paths in eval mode (line 110).
\<close>

datatype image_path = Path string | Paths "string list"

record annotation_entry =
  image_path :: image_path
  label :: string
  one_hot :: "int list"

record uwdataset =
  annotations :: "annotation_entry list"
  train :: bool
  list_classes :: "string list"

text \<open>
  The disk: the paths it holds, and what \<^verbatim>\<open>pd.read_csv\<close> makes of a file, \<open>None\<close> when it
  raises.
\<close>

record env =
  files :: "string list"
  read_csv :: "string \<Rightarrow> row list option"

subsection \<open>Paths, formatting and glob\<close>

text \<open>\<^verbatim>\<open>os.path.join(a, b)\<close> on POSIX, for two components.\<close>

definition join :: "string \<Rightarrow> string \<Rightarrow> string" where
  "join a b =
     (if b \<noteq> [] \<and> hd b = CHR ''/'' then b
      else if a = [] \<or> last a = CHR ''/'' then a @ b
      else a @ ''/'' @ b)"

definition digit :: "nat \<Rightarrow> char" where
  "digit d = char_of (48 + d)"

fun decimal :: "nat \<Rightarrow> string" where
  "decimal n = (if n < 10 then [digit n] else decimal (n div 10) @ [digit (n mod 10)])"

text \<open>The format specification \<^verbatim>\<open>0Wd\<close>: sign-aware zero padding to width \<open>w\<close>.\<close>

definition format_d :: "nat \<Rightarrow> int \<Rightarrow> string" where
  "format_d w n =
     (let sgn = (if n < 0 then ''-'' else '''');
          ds = decimal (nat \<bar>n\<bar>)
      in sgn @ replicate (w - length sgn - length ds) (CHR ''0'') @ ds)"

text \<open>
  \<^verbatim>\<open>glob(root + "*")\<close> for a path \<open>root\<close> without pattern characters: the paths that extend
  \<open>root\<close> inside its last directory, in the order the disk lists them.
\<close>

definition glob_star :: "string list \<Rightarrow> string \<Rightarrow> string list" where
  "glob_star fs root =
     filter (\<lambda>p. prefix root p \<and> CHR ''/'' \<notin> set (drop (length root) p)) fs"

text \<open>
  \<^verbatim>\<open>glob(join(split, "*.ods"))\<close>, again for a path without pattern characters: the
  entries of the directory \<open>split\<close> whose name ends in \<^verbatim>\<open>.ods\<close>; a leading \<^verbatim>\<open>*\<close> does not
  match a hidden name.
\<close>

definition glob_ods :: "string list \<Rightarrow> string \<Rightarrow> string list" where
  "glob_ods fs split =
     (let d = join split ''''
      in filter (\<lambda>p. prefix d p \<and>
                     (let name = drop (length d) p
                      in CHR ''/'' \<notin> set name \<and> suffix ''.ods'' name \<and> hd name \<noteq> CHR ''.'')) fs)"

subsection \<open>Reading the annotation tables (lines 39-63)\<close>

text \<open>\<^verbatim>\<open>row[list_classes].to_list()\<close>: a missing column raises \<open>KeyError\<close>.\<close>

fun select_cells :: "(string \<times> int) list \<Rightarrow> string list \<Rightarrow> error + int list" where
  "select_cells cs [] = Inr []"
| "select_cells cs (c # rest) =
     (case map_of cs c of
        None \<Rightarrow> Inl KeyError
      | Some v \<Rightarrow> (case select_cells cs rest of Inl e \<Rightarrow> Inl e | Inr vs \<Rightarrow> Inr (v # vs)))"

text \<open>
  Lines 60-63 on the dict: a new key goes to the end with a one-element list, an existing
  key gets the entry appended to its list.
\<close>

fun annot_append :: "annot \<Rightarrow> string \<Rightarrow> annot_dict \<Rightarrow> annot" where
  "annot_append [] l d = [(l, [d])]"
| "annot_append ((k, ds) # rest) l d =
     (if k = l then (k, ds @ [d]) # rest else (k, ds) # annot_append rest l d)"

text \<open>
  One replacement field of the f-string of line 62: the subscript of the row, then the
  format.
\<close>

definition format_cell :: "nat \<Rightarrow> id_cell option \<Rightarrow> error + string" where
  "format_cell w c =
     (case c of
        None \<Rightarrow> Inl KeyError
      | Some OtherCell \<Rightarrow> Inl ValueError
      | Some (IntCell n) \<Rightarrow> Inr (format_d w n))"

text \<open>The value of \<^verbatim>\<open>'image_root'\<close> at line 62, its two fields evaluated left to right.\<close>

definition image_root_of :: "string \<Rightarrow> row \<Rightarrow> error + string" where
  "image_root_of split r =
     (case format_cell 2 (id_rov r) of
        Inl e \<Rightarrow> Inl e
      | Inr a \<Rightarrow>
          (case format_cell 4 (img_id r) of
             Inl e \<Rightarrow> Inl e
           | Inr b \<Rightarrow> Inr (join split (a @ ''_'' @ b))))"

text \<open>
  The body of the loop over the rows, lines 59-63: the annotation is read first, then the
  image root is formatted, then the class cells are selected, and the dict is appended.
\<close>

fun read_rows :: "string \<Rightarrow> string list \<Rightarrow> row list \<Rightarrow> annot \<Rightarrow> error + annot" where
  "read_rows split classes [] annot = Inr annot"
| "read_rows split classes (r # rest) annot =
     (case annotation r of
        None \<Rightarrow> Inl KeyError
      | Some l \<Rightarrow>
          (case image_root_of split r of
             Inl e \<Rightarrow> Inl e
           | Inr root \<Rightarrow>
               (case select_cells (cells r) classes of
                  Inl e \<Rightarrow> Inl e
                | Inr oh \<Rightarrow>
                    read_rows split classes rest
                      (annot_append annot l \<lparr>image_root = root, row_one_hot = oh\<rparr>))))"

fun read_splits :: "env \<Rightarrow> string list \<Rightarrow> string list \<Rightarrow> annot \<Rightarrow> error + annot" where
  "read_splits e classes [] annot = Inr annot"
| "read_splits e classes (split # rest) annot =
     (let annotation_files = glob_ods (files e) split
      in if length annotation_files > 1 then Inl SystemExit
         else if length annotation_files = 0 then Inl SystemExit
         else (case read_csv e (annotation_files ! 0) of
                 None \<Rightarrow> Inl ParserError
               | Some rows \<Rightarrow>
                   (case read_rows split classes rows annot of
                      Inl err \<Rightarrow> Inl err
                    | Inr annot' \<Rightarrow> read_splits e classes rest annot')))"

subsection \<open>The random source and \<^verbatim>\<open>random.shuffle\<close>\<close>

text \<open>
  \<^verbatim>\<open>randbelow(n)\<close> takes the next raw draw modulo \<open>n\<close>; an exhausted source goes on
  with 0.
\<close>

fun randbelow :: "nat \<Rightarrow> nat list \<Rightarrow> nat \<times> nat list" where
  "randbelow n [] = (0, [])"
| "randbelow n (r # rs) = (r mod n, rs)"

text \<open>
  \<^verbatim>\<open>for i in reversed(range(1, len(x))): j = randbelow(i + 1); x[i], x[j] = x[j], x[i]\<close>
\<close>

fun shuffle_from :: "nat \<Rightarrow> 'a list \<Rightarrow> nat list \<Rightarrow> 'a list \<times> nat list" where
  "shuffle_from 0 xs rng = (xs, rng)"
| "shuffle_from (Suc i) xs rng =
     (case randbelow (Suc (Suc i)) rng of
        (j, rng') \<Rightarrow> shuffle_from i (xs[Suc i := xs ! j, j := xs ! Suc i]) rng')"

definition shuffle :: "'a list \<Rightarrow> nat list \<Rightarrow> 'a list \<times> nat list" where
  "shuffle xs rng = shuffle_from (length xs - 1) xs rng"

subsection \<open>Train mode: oversampling (lines 65-87)\<close>

text \<open>Lines 76-80 and 83-87: one entry per file that \<^verbatim>\<open>sorted(glob(...))\<close> returns.\<close>

definition expand :: "string list \<Rightarrow> string \<Rightarrow> annot_dict \<Rightarrow> annotation_entry list" where
  "expand fs l d =
     map (\<lambda>path. \<lparr>image_path = Path path, label = l, one_hot = row_one_hot d\<rparr>)
       (sort (glob_star fs (image_root d)))"

text \<open>Lines 71-87 for one group, after the shuffle.\<close>

definition oversample_group ::
  "string list \<Rightarrow> nat \<Rightarrow> string \<Rightarrow> annot_dict list \<Rightarrow> error + annotation_entry list" where
  "oversample_group fs max_repeats l annot_list =
     (if length annot_list = 0 then Inl ZeroDivisionError
      else
        (let rep = max_repeats div length annot_list;
             rem = max_repeats mod length annot_list
         in Inr (concat (replicate rep (concat (map (expand fs l) annot_list)))
                 @ concat (map (expand fs l) (take rem annot_list)))))"

fun oversample ::
  "string list \<Rightarrow> nat \<Rightarrow> annot \<Rightarrow> nat list \<Rightarrow> error + annotation_entry list" where
  "oversample fs max_repeats [] rng = Inr []"
| "oversample fs max_repeats ((l, annot_list) # rest) rng =
     (case shuffle annot_list rng of
        (shuffled, rng') \<Rightarrow>
          (case oversample_group fs max_repeats l shuffled of
             Inl e \<Rightarrow> Inl e
           | Inr out \<Rightarrow>
               (case oversample fs max_repeats rest rng' of
                  Inl e \<Rightarrow> Inl e
                | Inr others \<Rightarrow> Inr (out @ others))))"

text \<open>\<^verbatim>\<open>max(xs)\<close> raises \<open>ValueError\<close> on the empty list.\<close>

fun py_max :: "nat list \<Rightarrow> error + nat" where
  "py_max [] = Inl ValueError"
| "py_max (x # xs) = Inr (fold max xs x)"

definition train_annotations ::
  "string list \<Rightarrow> annot \<Rightarrow> nat list \<Rightarrow> error + annotation_entry list" where
  "train_annotations fs annot rng =
     (case py_max (map (\<lambda>(l, annot_list). length annot_list) annot) of
        Inl e \<Rightarrow> Inl e
      | Inr max_repeats \<Rightarrow> oversample fs max_repeats annot rng)"

subsection \<open>Eval mode (lines 107-112)\<close>

definition eval_entry :: "string list \<Rightarrow> string \<Rightarrow> annot_dict \<Rightarrow> annotation_entry" where
  "eval_entry fs l d =
     \<lparr>image_path = Paths (sort (glob_star fs (image_root d))), label = l,
      one_hot = row_one_hot d\<rparr>"

definition eval_annotations :: "string list \<Rightarrow> annot \<Rightarrow> annotation_entry list" where
  "eval_annotations fs annot =
     concat (map (\<lambda>(l, annot_list). map (eval_entry fs l) annot_list) annot)"

subsection \<open>The constructor\<close>

text \<open>
  \<^verbatim>\<open>__init__\<close>. After the list is built, line 123 reads \<^verbatim>\<open>self.annotations[0]\<close> for the
  summary, which raises \<open>IndexError\<close> on an empty list; the printed text is not modelled.
\<close>

definition init ::
  "env \<Rightarrow> string list \<Rightarrow> string list \<Rightarrow> bool \<Rightarrow> nat list \<Rightarrow> error + uwdataset" where
  "init e split_list classes tr rng =
     (case read_splits e classes split_list [] of
        Inl err \<Rightarrow> Inl err
      | Inr annot \<Rightarrow>
          (case (if tr then train_annotations (files e) annot rng
                 else Inr (eval_annotations (files e) annot)) of
             Inl err \<Rightarrow> Inl err
           | Inr anns \<Rightarrow>
               if anns = [] then Inl IndexError
               else Inr \<lparr>annotations = anns, train = tr, list_classes = classes\<rparr>))"

subsection \<open>Length and retrieval (lines 128-157)\<close>

definition len :: "uwdataset \<Rightarrow> nat" where
  "len ds = length (annotations ds)"

text \<open>
  \<^verbatim>\<open>xs[i]\<close> on a list: a negative index has the length added once, and what is still
  outside the list raises \<open>IndexError\<close>.
\<close>

definition subscript :: "'a list \<Rightarrow> int \<Rightarrow> error + 'a" where
  "subscript xs i =
     (if 0 \<le> i \<and> i < int (length xs) then Inr (xs ! nat i)
      else if i < 0 \<and> - int (length xs) \<le> i then Inr (xs ! nat (i + int (length xs)))
      else Inl IndexError)"

text \<open>\<^verbatim>\<open>list.index(x)\<close>: the first position of \<open>x\<close>, \<open>ValueError\<close> when there is none.\<close>

fun index_of :: "'a list \<Rightarrow> 'a \<Rightarrow> error + nat" where
  "index_of [] x = Inl ValueError"
| "index_of (y # ys) x =
     (if y = x then Inr 0
      else (case index_of ys x of Inl e \<Rightarrow> Inl e | Inr i \<Rightarrow> Inr (Suc i)))"

text \<open>
  The list comprehension of line 150: the images are decoded in order and the first
  failure leaves the method.
\<close>

fun decode_all :: "(string \<Rightarrow> 't option) \<Rightarrow> string list \<Rightarrow> error + 't list" where
  "decode_all decode [] = Inr []"
| "decode_all decode (p # ps) =
     (case decode p of
        None \<Rightarrow> Inl TypeError
      | Some t \<Rightarrow> (case decode_all decode ps of Inl e \<Rightarrow> Inl e | Inr ts \<Rightarrow> Inr (t # ts)))"

text \<open>\<^verbatim>\<open>torch.stack\<close> refuses the empty list; the stacked tensor is the list of its frames.\<close>

definition stack :: "'t list \<Rightarrow> error + 't list" where
  "stack ts = (if ts = [] then Inl RuntimeError else Inr ts)"

datatype 't item = TrainItem 't nat | EvalItem "'t list" nat

text \<open>
  Lines 138-139: \<^verbatim>\<open>cv2.imread\<close> refuses a list where one path is expected, and its
  \<^verbatim>\<open>None\<close> for an unreadable file cannot be subscripted.
\<close>

definition read_image :: "(string \<Rightarrow> 't option) \<Rightarrow> annotation_entry \<Rightarrow> error + 't" where
  "read_image decode a =
     (case image_path a of
        Paths ps \<Rightarrow> Inl TypeError
      | Path p \<Rightarrow> (case decode p of None \<Rightarrow> Inl TypeError | Some img \<Rightarrow> Inr img))"

text \<open>
  Lines 149-151: a string where a list of paths is expected is iterated character by
  character.
\<close>

definition read_images :: "(string \<Rightarrow> 't option) \<Rightarrow> annotation_entry \<Rightarrow> error + 't list" where
  "read_images decode a =
     (case decode_all decode
             (case image_path a of Paths ps \<Rightarrow> ps | Path p \<Rightarrow> map (\<lambda>c. [c]) p) of
        Inl e \<Rightarrow> Inl e
      | Inr imgs \<Rightarrow> stack imgs)"

text \<open>
  \<^verbatim>\<open>__getitem__\<close>. In both branches the subscript comes first, then the images, then the
  position of the label in \<^verbatim>\<open>self.list_classes\<close>.
\<close>

definition getitem :: "(string \<Rightarrow> 't option) \<Rightarrow> uwdataset \<Rightarrow> int \<Rightarrow> error + 't item" where
  "getitem decode ds index =
     (case subscript (annotations ds) index of
        Inl e \<Rightarrow> Inl e
      | Inr a \<Rightarrow>
          if train ds then
            (case read_image decode a of
               Inl e \<Rightarrow> Inl e
             | Inr img \<Rightarrow>
                 (case index_of (list_classes ds) (label a) of
                    Inl e \<Rightarrow> Inl e
                  | Inr i \<Rightarrow> Inr (TrainItem img i)))
          else
            (case read_images decode a of
               Inl e \<Rightarrow> Inl e
             | Inr images \<Rightarrow>
                 (case index_of (list_classes ds) (label a) of
                    Inl e \<Rightarrow> Inl e
                  | Inr i \<Rightarrow> Inr (EvalItem images i))))"

subsection \<open>The two methods, statement by statement\<close>

text \<open>
  To say what a call does to the object, the methods are written once more as the source
  has them, one statement after the other, on a state: the object \<^verbatim>\<open>self\<close> and the local
  variables of the call. A statement returns a value or raises, and leaves a state; an
  exception leaves the state the raising statement left. A statement that stored into a
  field of \<^verbatim>\<open>self\<close> or into a record of \<^verbatim>\<open>self.annotations\<close> would change the first
  component of the state.
\<close>

datatype label_val = LabelStr string | LabelNum nat

record 't frame =
  self :: uwdataset
  v_img :: "'t option"
  v_image_paths :: "nat option"
  v_images :: "'t list option"
  v_label :: "label_val option"

type_synonym ('t, 'a) stmt = "'t frame \<Rightarrow> (error + 'a) \<times> 't frame"

definition ret :: "'a \<Rightarrow> ('t, 'a) stmt" where
  "ret x = (\<lambda>s. (Inr x, s))"

text \<open>A computation that touches no state: a library call on values, or a raise.\<close>

definition lift :: "error + 'a \<Rightarrow> ('t, 'a) stmt" where
  "lift r = (\<lambda>s. (r, s))"

definition then_do :: "('t, 'a) stmt \<Rightarrow> ('a \<Rightarrow> ('t, 'b) stmt) \<Rightarrow> ('t, 'b) stmt" where
  "then_do m f = (\<lambda>s. case m s of (Inl e, s') \<Rightarrow> (Inl e, s') | (Inr x, s') \<Rightarrow> f x s')"

text \<open>
  \<^verbatim>\<open>self.annotations[index]\<close> selects a record of the list; the record is an object, so what
  the expression yields is the position of the record, through which its fields are read.
\<close>

definition position :: "'a list \<Rightarrow> int \<Rightarrow> error + nat" where
  "position xs i =
     (if 0 \<le> i \<and> i < int (length xs) then Inr (nat i)
      else if i < 0 \<and> - int (length xs) \<le> i then Inr (nat (i + int (length xs)))
      else Inl IndexError)"

definition self_subscript :: "int \<Rightarrow> ('t, nat) stmt" where
  "self_subscript index = (\<lambda>s. (position (annotations (self s)) index, s))"

definition entry_at :: "nat \<Rightarrow> ('t, annotation_entry) stmt" where
  "entry_at j = (\<lambda>s. (Inr (annotations (self s) ! j), s))"

definition self_list_classes :: "('t, string list) stmt" where
  "self_list_classes = (\<lambda>s. (Inr (list_classes (self s)), s))"

text \<open>Assignments to the local variables.\<close>

definition assign_img :: "'t \<Rightarrow> ('t, unit) stmt" where
  "assign_img t = (\<lambda>s. (Inr (), s\<lparr>v_img := Some t\<rparr>))"

definition assign_image_paths :: "nat \<Rightarrow> ('t, unit) stmt" where
  "assign_image_paths j = (\<lambda>s. (Inr (), s\<lparr>v_image_paths := Some j\<rparr>))"

definition assign_images :: "'t list \<Rightarrow> ('t, unit) stmt" where
  "assign_images ts = (\<lambda>s. (Inr (), s\<lparr>v_images := Some ts\<rparr>))"

definition assign_label :: "label_val \<Rightarrow> ('t, unit) stmt" where
  "assign_label v = (\<lambda>s. (Inr (), s\<lparr>v_label := Some v\<rparr>))"

text \<open>\<^verbatim>\<open>__len__\<close>, line 131.\<close>

definition len_m :: "('t, nat) stmt" where
  "len_m = (\<lambda>s. (Inr (length (annotations (self s))), s))"

text \<open>
  The train branch, lines 138-145. Lines 138-139 read and transform the image at the path
  of the record; line 142 binds \<^verbatim>\<open>label\<close> to the string of the record and line 143 binds
  the same local variable to its position in the class list.
\<close>

definition getitem_train :: "(string \<Rightarrow> 't option) \<Rightarrow> int \<Rightarrow> ('t, 't item) stmt" where
  "getitem_train decode index =
     then_do (self_subscript index) (\<lambda>j.
     then_do (entry_at j) (\<lambda>a.
     then_do (lift (read_image decode a)) (\<lambda>img.
     then_do (assign_img img) (\<lambda>_.
     then_do (self_subscript index) (\<lambda>j'.
     then_do (entry_at j') (\<lambda>a'.
     then_do (assign_label (LabelStr (label a'))) (\<lambda>_.
     then_do self_list_classes (\<lambda>classes.
     then_do (lift (index_of classes (label a'))) (\<lambda>i.
     then_do (assign_label (LabelNum i)) (\<lambda>_.
     ret (TrainItem img i)))))))))))"

text \<open>
  The eval branch, lines 149-157. Line 149 binds \<^verbatim>\<open>image_paths\<close> to the list object of the
  record, not to a copy: the local variable holds the position of the record, and the
  comprehension of line 150 reads the paths through it.
\<close>

definition paths_at :: "nat \<Rightarrow> ('t, string list) stmt" where
  "paths_at j =
     (\<lambda>s. (Inr (case image_path (annotations (self s) ! j) of
                   Paths ps \<Rightarrow> ps
                 | Path p \<Rightarrow> map (\<lambda>c. [c]) p), s))"

definition getitem_eval :: "(string \<Rightarrow> 't option) \<Rightarrow> int \<Rightarrow> ('t, 't item) stmt" where
  "getitem_eval decode index =
     then_do (self_subscript index) (\<lambda>j.
     then_do (assign_image_paths j) (\<lambda>_.
     then_do (paths_at j) (\<lambda>ps.
     then_do (lift (decode_all decode ps)) (\<lambda>imgs.
     then_do (assign_images imgs) (\<lambda>_.
     then_do (lift (stack imgs)) (\<lambda>images.
     then_do (assign_images images) (\<lambda>_.
     then_do (self_subscript index) (\<lambda>j'.
     then_do (entry_at j') (\<lambda>a'.
     then_do (assign_label (LabelStr (label a'))) (\<lambda>_.
     then_do self_list_classes (\<lambda>classes.
     then_do (lift (index_of classes (label a'))) (\<lambda>i.
     then_do (assign_label (LabelNum i)) (\<lambda>_.
     ret (EvalItem images i))))))))))))))"

text \<open>\<^verbatim>\<open>__getitem__\<close>: the test of \<^verbatim>\<open>self.train\<close> at line 136 chooses the branch.\<close>

definition getitem_m :: "(string \<Rightarrow> 't option) \<Rightarrow> int \<Rightarrow> ('t, 't item) stmt" where
  "getitem_m decode index =
     (\<lambda>s. if train (self s) then getitem_train decode index s
          else getitem_eval decode index s)"

text \<open>
  A call from outside starts with fresh local variables and hands the object on as the
  method leaves it.
\<close>

definition fresh :: "uwdataset \<Rightarrow> 't frame" where
  "fresh ds =
     \<lparr>self = ds, v_img = None, v_image_paths = None, v_images = None, v_label = None\<rparr>"

datatype call = Len | GetItem int

datatype 't reply = LenReply "error + nat" | ItemReply "error + 't item"

fun call_method ::
  "(string \<Rightarrow> 't option) \<Rightarrow> uwdataset \<Rightarrow> call \<Rightarrow> 't reply \<times> uwdataset" where
  "call_method decode ds Len =
     (case len_m (fresh ds :: 't frame) of (r, s) \<Rightarrow> (LenReply r, self s))"
| "call_method decode ds (GetItem i) =
     (case getitem_m decode i (fresh ds) of (r, s) \<Rightarrow> (ItemReply r, self s))"

fun run_calls ::
  "(string \<Rightarrow> 't option) \<Rightarrow> uwdataset \<Rightarrow> call list \<Rightarrow> 't reply list \<times> uwdataset" where
  "run_calls decode ds [] = ([], ds)"
| "run_calls decode ds (c # cs) =
     (case call_method decode ds c of
        (r, ds') \<Rightarrow> (case run_calls decode ds' cs of (rs, ds'') \<Rightarrow> (r # rs, ds'')))"

text \<open>A statement that leaves the object as it found it, whatever it does to the locals.\<close>

definition keeps_self :: "('t, 'a) stmt \<Rightarrow> bool" where
  "keeps_self m = (\<forall>s. self (snd (m s)) = self s)"

subsection \<open>Notions the statements below use\<close>

text \<open>
  The definitions of this subsection are not functions of the source: they say, in the
  words of the specification, what the theorems compare the source with.
\<close>

text \<open>
  The annotation entries one group emits in train mode, before they are expanded into
  files: \<open>m div n\<close> passes over the shuffled group and its first \<open>m mod n\<close> entries.
\<close>

definition emitted_group :: "nat \<Rightarrow> 'a list \<Rightarrow> 'a list" where
  "emitted_group m sh = concat (replicate (m div length sh) sh) @ take (m mod length sh) sh"

text \<open>The same for every group of the dict, the random source threaded as the loop does.\<close>

fun emitted :: "nat \<Rightarrow> annot \<Rightarrow> nat list \<Rightarrow> annot" where
  "emitted m [] rng = []"
| "emitted m ((l, annot_list) # rest) rng =
     (case shuffle annot_list rng of
        (shuffled, rng') \<Rightarrow> (l, emitted_group m shuffled) # emitted m rest rng')"

definition groups_nonempty :: "annot \<Rightarrow> bool" where
  "groups_nonempty annot = (\<forall>(l, g) \<in> set annot. g \<noteq> [])"

text \<open>The dict as a list of (label, entry) pairs, in the order the eval loop visits them.\<close>

definition entries :: "annot \<Rightarrow> (string \<times> annot_dict) list" where
  "entries annot = concat (map (\<lambda>(l, g). map (Pair l) g) annot)"

text \<open>
  What a row stands for once it is read: its label, its class cells and the dict of lines
  62-63. Where the row cannot be read, which aborts the construction, the label and the
  cells are empty.
\<close>

definition row_label :: "row \<Rightarrow> string" where
  "row_label r = (case annotation r of None \<Rightarrow> [] | Some l \<Rightarrow> l)"

definition row_cells :: "string list \<Rightarrow> row \<Rightarrow> int list" where
  "row_cells classes r = (case select_cells (cells r) classes of Inl e \<Rightarrow> [] | Inr oh \<Rightarrow> oh)"

definition row_dict :: "string list \<Rightarrow> string \<Rightarrow> row \<Rightarrow> annot_dict" where
  "row_dict classes split r =
     \<lparr>image_root = (case image_root_of split r of Inl e \<Rightarrow> [] | Inr root \<Rightarrow> root),
      row_one_hot = row_cells classes r\<rparr>"

text \<open>The rows of the table a split holds, and the rows of all splits with their split.\<close>

definition split_rows :: "env \<Rightarrow> string \<Rightarrow> row list" where
  "split_rows e split =
     (case read_csv e (glob_ods (files e) split ! 0) of None \<Rightarrow> [] | Some rows \<Rightarrow> rows)"

definition all_rows :: "env \<Rightarrow> string list \<Rightarrow> (string \<times> row) list" where
  "all_rows e split_list = concat (map (\<lambda>s. map (Pair s) (split_rows e s)) split_list)"

text \<open>
  The keys of a list of pairs in the order of their first appearance, and the pairs grouped
  by key in that order, each group in the order of the list: what an insertion-ordered dict
  of lists holds after the pairs are appended one by one.
\<close>

definition first_seen :: "'a list \<Rightarrow> 'a list" where
  "first_seen xs = rev (remdups (rev xs))"

definition grouped :: "('k \<times> 'v) list \<Rightarrow> ('k \<times> 'v list) list" where
  "grouped es =
     map (\<lambda>k. (k, map snd (filter (\<lambda>p. fst p = k) es))) (first_seen (map fst es))"




text \<open>
  The decoder the specification speaks of (the source has none): the position of the first
  largest value of the one-hot, read as a position in the class list.
\<close>

definition argmax :: "int list \<Rightarrow> nat option" where
  "argmax xs =
     (case xs of
        [] \<Rightarrow> None
      | x # rest \<Rightarrow> (case index_of xs (fold max rest x) of Inl e \<Rightarrow> None | Inr i \<Rightarrow> Some i))"

definition decode_one_hot :: "string list \<Rightarrow> int list \<Rightarrow> string option" where
  "decode_one_hot classes oh =
     (case argmax oh of
        None \<Rightarrow> None
      | Some i \<Rightarrow> if i < length classes then Some (classes ! i) else None)"

subsection \<open>A small disk\<close>

text \<open>
  One split \<^verbatim>\<open>s\<close> with its table: class A has two rows (the first with two image files),
  class B has three rows with one file each.
\<close>

definition example_row :: "string \<Rightarrow> int \<Rightarrow> int \<Rightarrow> int \<Rightarrow> row" where
  "example_row l i a b =
     \<lparr>annotation = Some l, id_rov = Some (IntCell 1), img_id = Some (IntCell i),
      cells = [(''A'', a), (''B'', b)]\<rparr>"

definition example_env :: env where
  "example_env =
     \<lparr>files = [''s/a.ods'', ''s/01_0002.png'', ''s/01_0001_b.png'', ''s/01_0001_a.png'',
               ''s/01_0003.png'', ''s/01_0004.png'', ''s/01_0005.png''],
      read_csv = (\<lambda>p. if p = ''s/a.ods''
                       then Some [example_row ''A'' 1 1 0, example_row ''B'' 2 0 1,
                                  example_row ''B'' 3 0 1, example_row ''A'' 4 1 0,
                                  example_row ''B'' 5 0 1]
                       else None)\<rparr>"



text \<open>The list the train construction builds on this disk with the draws 1, 0, 2.\<close>

definition example_train :: "annotation_entry list" where
  "example_train =
     [\<lparr>image_path = Path ''s/01_0001_a.png'', label = ''A'', one_hot = [1, 0]\<rparr>,
      \<lparr>image_path = Path ''s/01_0001_b.png'', label = ''A'', one_hot = [1, 0]\<rparr>,
      \<lparr>image_path = Path ''s/01_0004.png'', label = ''A'', one_hot = [1, 0]\<rparr>,
      \<lparr>image_path = Path ''s/01_0001_a.png'', label = ''A'', one_hot = [1, 0]\<rparr>,
      \<lparr>image_path = Path ''s/01_0001_b.png'', label = ''A'', one_hot = [1, 0]\<rparr>,
      \<lparr>image_path = Path ''s/01_0003.png'', label = ''B'', one_hot = [0, 1]\<rparr>,
      \<lparr>image_path = Path ''s/01_0005.png'', label = ''B'', one_hot = [0, 1]\<rparr>,
      \<lparr>image_path = Path ''s/01_0002.png'', label = ''B'', one_hot = [0, 1]\<rparr>]"

text \<open>A table whose only row is annotated B while its class cells mark A.\<close>

definition mislabelled_env :: env where
  "mislabelled_env =
     \<lparr>files = [''s/a.ods'', ''s/01_0001.png''],
      read_csv = (\<lambda>p. if p = ''s/a.ods'' then Some [example_row ''B'' 1 1 0] else None)\<rparr>"

definition mislabelled_entry :: annotation_entry where
  "mislabelled_entry =
     \<lparr>image_path = Paths [''s/01_0001.png''], label = ''B'', one_hot = [1, 0]\<rparr>"

text \<open>
  A table whose only row is annotated with a label C that is not among the classes A, B,
  and the train dataset the constructor builds from it.
\<close>

definition unlisted_env :: env where
  "unlisted_env =
     \<lparr>files = [''s/a.ods'', ''s/01_0001.png''],
      read_csv = (\<lambda>p. if p = ''s/a.ods'' then Some [example_row ''C'' 1 0 0] else None)\<rparr>"

definition unlisted_dataset :: uwdataset where
  "unlisted_dataset =
     \<lparr>annotations = [\<lparr>image_path = Path ''s/01_0001.png'', label = ''C'', one_hot = [0, 0]\<rparr>],
      train = True, list_classes = [''A'', ''B'']\<rparr>"

text \<open>A split whose table has no rows, and one whose rows have no image files.\<close>

definition empty_env :: env where
  "empty_env = \<lparr>files = [''s/a.ods''], read_csv = (\<lambda>p. Some [])\<rparr>"

definition imageless_env :: env where
  "imageless_env =
     \<lparr>files = [''s/a.ods''],
      read_csv = (\<lambda>p. if p = ''s/a.ods'' then Some [example_row ''A'' 1 1 0] else None)\<rparr>"

section \<open>Properties\<close>

subsection \<open>The shuffle permutes\<close>

lemma randbelow_less: "0 < n \<Longrightarrow> fst (randbelow n rng) < n"
  by (cases rng) auto

lemma shuffle_from_mset:
  "i < length xs \<Longrightarrow> mset (fst (shuffle_from i xs rng)) = mset xs"
proof (induction i arbitrary: xs rng)
  case 0
  then show ?case by simp
next
  case (Suc i)
  obtain j rng' where r: "randbelow (Suc (Suc i)) rng = (j, rng')"
    by (cases "randbelow (Suc (Suc i)) rng")
  have "j < Suc (Suc i)" using randbelow_less[of "Suc (Suc i)" rng] r by simp
  with Suc.prems have j: "j < length xs" by simp
  have "mset (xs[Suc i := xs ! j, j := xs ! Suc i]) = mset xs"
    using mset_swap[OF j, of "Suc i"] Suc.prems by simp
  moreover have "i < length (xs[Suc i := xs ! j, j := xs ! Suc i])" using Suc.prems by simp
  ultimately show ?case using Suc.IH[of "xs[Suc i := xs ! j, j := xs ! Suc i]" rng'] r by simp
qed

lemma shuffle_mset: "mset (fst (shuffle xs rng)) = mset xs"
proof (cases xs)
  case Nil
  then show ?thesis by (simp add: shuffle_def)
next
  case (Cons a list)
  then show ?thesis by (simp add: shuffle_def shuffle_from_mset)
qed

lemma shuffle_length: "length (fst (shuffle xs rng)) = length xs"
  using shuffle_mset[of xs rng] by (metis size_mset)

lemma shuffle_set: "set (fst (shuffle xs rng)) = set xs"
  using shuffle_mset[of xs rng] by (metis set_mset_mset)

subsection \<open>Groups of the dict are never empty\<close>

lemma annot_append_nonempty:
  "groups_nonempty annot \<Longrightarrow> groups_nonempty (annot_append annot l d)"
  by (induction annot l d rule: annot_append.induct) (auto simp: groups_nonempty_def)

lemma read_rows_nonempty:
  "read_rows split classes rows annot = Inr annot' \<Longrightarrow> groups_nonempty annot \<Longrightarrow>
   groups_nonempty annot'"
  by (induction rows arbitrary: annot)
     (auto split: sum.splits option.splits intro: annot_append_nonempty)

lemma read_splits_nonempty:
  "read_splits e classes splits annot = Inr annot' \<Longrightarrow> groups_nonempty annot \<Longrightarrow>
   groups_nonempty annot'"
  by (induction splits arbitrary: annot)
     (auto simp: Let_def split: sum.splits option.splits if_splits intro: read_rows_nonempty)

subsection \<open>Oversampling\<close>

lemma concat_replicate_map:
  "concat (replicate n (concat (map f xs))) = concat (map f (concat (replicate n xs)))"
  by (induction n) auto



lemma oversample_group_emitted:
  "sh \<noteq> [] \<Longrightarrow>
   oversample_group fs m l sh = Inr (concat (map (expand fs l) (emitted_group m sh)))"
  by (simp add: oversample_group_def emitted_group_def concat_replicate_map Let_def)

lemma oversample_emitted:
  "groups_nonempty annot \<Longrightarrow>
   oversample fs m annot rng =
     Inr (concat (map (\<lambda>(l, es). concat (map (expand fs l) es)) (emitted m annot rng)))"
proof (induction annot arbitrary: rng)
  case Nil
  then show ?case by simp
next
  case (Cons g annot)
  obtain l annot_list where g: "g = (l, annot_list)" by (cases g)
  obtain sh rng' where s: "shuffle annot_list rng = (sh, rng')"
    by (cases "shuffle annot_list rng")
  from Cons.prems g have ne: "annot_list \<noteq> []" and rest: "groups_nonempty annot"
    by (auto simp: groups_nonempty_def)
  have "length sh = length annot_list" using shuffle_length[of annot_list rng] s by simp
  with ne have "sh \<noteq> []" by auto
  then show ?case using Cons.IH[OF rest, of rng'] g s
    by (simp add: oversample_group_emitted)
qed

lemma py_max_Max: "xs \<noteq> [] \<Longrightarrow> py_max xs = Inr (Max (set xs))"
proof -
  assume "xs \<noteq> []"
  then obtain y ys where xs: "xs = y # ys" by (cases xs) auto
  have "Max (set (y # ys)) = fold max ys y" by (rule Max.set_eq_fold)
  then show ?thesis using xs by simp
qed





subsection \<open>Expansion into files\<close>






lemma expand_label: "a \<in> set (expand fs l d) \<Longrightarrow> label a = l \<and> one_hot a = row_one_hot d"
  by (auto simp: expand_def)









subsection \<open>Eval mode\<close>

lemma entries_Nil: "entries [] = []"
  by (simp add: entries_def)

lemma entries_Cons: "entries ((l, g) # rest) = map (Pair l) g @ entries rest"
  by (simp add: entries_def)

lemma annot_append_entries:
  "mset (entries (annot_append annot l d)) = add_mset (l, d) (mset (entries annot))"
  by (induction annot l d rule: annot_append.induct) (simp_all add: entries_Nil entries_Cons)

lemma read_rows_step:
  assumes "read_rows split classes (r # rows) annot = Inr annot'"
  shows "annotation r = Some (row_label r)
       \<and> image_root_of split r = Inr (image_root (row_dict classes split r))
       \<and> select_cells (cells r) classes = Inr (row_cells classes r)
       \<and> read_rows split classes rows
            (annot_append annot (row_label r) (row_dict classes split r)) = Inr annot'"
  using assms
  by (auto simp: row_label_def row_dict_def row_cells_def split: option.splits sum.splits)

lemma read_splits_step:
  assumes "read_splits e classes (s # split_list) annot = Inr annot'"
  shows "\<exists>annot1. read_rows s classes (split_rows e s) annot = Inr annot1
                  \<and> read_splits e classes split_list annot1 = Inr annot'"
  using assms
  by (auto simp: Let_def split_rows_def split: if_splits option.splits sum.splits)

lemma all_rows_Cons:
  "all_rows e (s # split_list) = map (Pair s) (split_rows e s) @ all_rows e split_list"
  by (simp add: all_rows_def)

lemma read_rows_entries:
  "read_rows split classes rows annot = Inr annot' \<Longrightarrow>
   mset (entries annot') =
     mset (entries annot) + mset (map (\<lambda>r. (row_label r, row_dict classes split r)) rows)"
proof (induction rows arbitrary: annot)
  case Nil
  then show ?case by simp
next
  case (Cons r rows)
  from read_rows_step[OF Cons.prems]
  have rest: "read_rows split classes rows
                (annot_append annot (row_label r) (row_dict classes split r)) = Inr annot'"
    by simp
  show ?case using Cons.IH[OF rest] by (simp add: annot_append_entries)
qed

lemma read_splits_entries:
  "read_splits e classes split_list annot = Inr annot' \<Longrightarrow>
   mset (entries annot') =
     mset (entries annot)
     + mset (map (\<lambda>(s, r). (row_label r, row_dict classes s r)) (all_rows e split_list))"
proof (induction split_list arbitrary: annot)
  case Nil
  then show ?case by (simp add: all_rows_def)
next
  case (Cons s split_list)
  from read_splits_step[OF Cons.prems] obtain annot1 where
    one: "read_rows s classes (split_rows e s) annot = Inr annot1"
    and rest: "read_splits e classes split_list annot1 = Inr annot'"
    by blast
  show ?case
    using Cons.IH[OF rest] read_rows_entries[OF one] by (simp add: all_rows_Cons comp_def)
qed

lemma read_rows_cells:
  "read_rows split classes rows annot = Inr annot' \<Longrightarrow> r \<in> set rows \<Longrightarrow>
   annotation r = Some (row_label r)
   \<and> image_root_of split r = Inr (image_root (row_dict classes split r))
   \<and> select_cells (cells r) classes = Inr (row_cells classes r)"
proof (induction rows arbitrary: annot)
  case Nil
  then show ?case by simp
next
  case (Cons r' rows)
  from read_rows_step[OF Cons.prems(1)] Cons.prems(2) Cons.IH show ?case by auto
qed

lemma read_splits_cells:
  "read_splits e classes split_list annot = Inr annot' \<Longrightarrow>
   (s, r) \<in> set (all_rows e split_list) \<Longrightarrow>
   annotation r = Some (row_label r)
   \<and> image_root_of s r = Inr (image_root (row_dict classes s r))
   \<and> select_cells (cells r) classes = Inr (row_cells classes r)"
proof (induction split_list arbitrary: annot)
  case Nil
  then show ?case by (simp add: all_rows_def)
next
  case (Cons s' split_list)
  from read_splits_step[OF Cons.prems(1)] obtain annot1 where
    one: "read_rows s' classes (split_rows e s') annot = Inr annot1"
    and rest: "read_splits e classes split_list annot1 = Inr annot'"
    by blast
  from Cons.prems(2) have "(s = s' \<and> r \<in> set (split_rows e s')) \<or> (s, r) \<in> set (all_rows e split_list)"
    by (auto simp: all_rows_Cons)
  then show ?case using read_rows_cells[OF one] Cons.IH[OF rest] by blast
qed

lemma eval_annotations_entries:
  "eval_annotations fs annot = map (\<lambda>(l, d). eval_entry fs l d) (entries annot)"
  by (induction annot) (auto simp: eval_annotations_def entries_def comp_def)

text \<open>The dict holds the rows grouped by label, in the order the rows were appended.\<close>

lemma first_seen_snoc:
  "first_seen (xs @ [x]) = (if x \<in> set xs then first_seen xs else first_seen xs @ [x])"
  by (simp add: first_seen_def)

lemma set_first_seen: "set (first_seen xs) = set xs"
  by (simp add: first_seen_def)

lemma distinct_first_seen: "distinct (first_seen xs)"
  by (simp add: first_seen_def)

lemma annot_append_map:
  "distinct ks \<Longrightarrow>
   annot_append (map (\<lambda>k. (k, G k)) ks) l d =
     (if l \<in> set ks then map (\<lambda>k. (k, if k = l then G k @ [d] else G k)) ks
      else map (\<lambda>k. (k, G k)) ks @ [(l, [d])])"
  by (induction ks) auto

lemma grouped_Nil: "grouped [] = []"
  by (simp add: grouped_def first_seen_def)

lemma annot_append_grouped: "annot_append (grouped es) l d = grouped (es @ [(l, d)])"
proof (cases "l \<in> fst ` set es")
  case True
  then show ?thesis
    by (simp add: grouped_def annot_append_map distinct_first_seen set_first_seen
        first_seen_snoc)
next
  case False
  then have "filter (\<lambda>p. fst p = l) es = []"
    by (auto simp: filter_empty_conv)
  moreover have "map (\<lambda>k. (k, map snd (filter (\<lambda>p. fst p = k) es) @ (if l = k then [d] else [])))
                   (first_seen (map fst es)) =
                 map (\<lambda>k. (k, map snd (filter (\<lambda>p. fst p = k) es))) (first_seen (map fst es))"
    using False by (intro map_cong) (auto simp: set_first_seen)
  moreover from False have "\<forall>x \<in> set es. l \<noteq> fst x" by auto
  ultimately show ?thesis using False
    by (simp add: grouped_def annot_append_map distinct_first_seen set_first_seen
        first_seen_snoc)
qed

lemma read_rows_grouped:
  "read_rows split classes rows (grouped es) = Inr annot' \<Longrightarrow>
   annot' = grouped (es @ map (\<lambda>r. (row_label r, row_dict classes split r)) rows)"
proof (induction rows arbitrary: es)
  case Nil
  then show ?case by simp
next
  case (Cons r rows)
  from read_rows_step[OF Cons.prems]
  have "read_rows split classes rows
          (grouped (es @ [(row_label r, row_dict classes split r)])) = Inr annot'"
    by (simp add: annot_append_grouped)
  from Cons.IH[OF this] show ?case by simp
qed

lemma read_splits_grouped:
  "read_splits e classes split_list (grouped es) = Inr annot' \<Longrightarrow>
   annot' =
     grouped (es @ map (\<lambda>(s, r). (row_label r, row_dict classes s r)) (all_rows e split_list))"
proof (induction split_list arbitrary: es)
  case Nil
  then show ?case by (simp add: all_rows_def)
next
  case (Cons s split_list)
  from read_splits_step[OF Cons.prems] obtain annot1 where
    one: "read_rows s classes (split_rows e s) (grouped es) = Inr annot1"
    and rest: "read_splits e classes split_list annot1 = Inr annot'"
    by blast
  from read_rows_grouped[OF one] rest
  have "read_splits e classes split_list
          (grouped (es @ map (\<lambda>r. (row_label r, row_dict classes s r)) (split_rows e s))) =
        Inr annot'"
    by simp
  from Cons.IH[OF this] show ?case by (simp add: all_rows_Cons comp_def)
qed

lemma eval_annotations_grouped:
  "eval_annotations fs (grouped (map (\<lambda>(s, r). (row_label r, row_dict classes s r)) rows)) =
     concat (map (\<lambda>l. map (\<lambda>(s, r). eval_entry fs l (row_dict classes s r))
                          (filter (\<lambda>(s, r). row_label r = l) rows))
               (first_seen (map (\<lambda>(s, r). row_label r) rows)))"
proof -
  have "map snd (filter (\<lambda>p. fst p = l)
          (map (\<lambda>(s, r). (row_label r, row_dict classes s r)) rows)) =
        map (\<lambda>(s, r). row_dict classes s r) (filter (\<lambda>(s, r). row_label r = l) rows)" for l
    by (induction rows) auto
  moreover have "map fst (map (\<lambda>(s, r). (row_label r, row_dict classes s r)) rows) =
                 map (\<lambda>(s, r). row_label r) rows"
    by (induction rows) auto
  ultimately show ?thesis
    by (simp add: eval_annotations_def grouped_def comp_def case_prod_unfold)
qed

text \<open>
  C3. In eval mode a construction that returns has built exactly one entry per row of
  the tables of the splits, nothing shuffled and nothing repeated. The list is fixed by
  the rows alone, whatever the random source: the labels in the order of their first
  appearance in the rows of the splits, and under each label its rows in the order of the
  tables, each row as one entry with that label, its class cells as one-hot and the sorted
  list of the files that extend its image root. So the entries are, as a multiset, the
  rows, and the length of the dataset is the number of rows of all splits.
\<close>

theorem eval_one_entry_per_row:
  assumes "init e split_list classes False rng = Inr ds"
  shows "annotations ds =
           concat (map (\<lambda>l. map (\<lambda>(s, r).
                     \<lparr>image_path =
                        Paths (sort (glob_star (files e) (image_root (row_dict classes s r)))),
                      label = l, one_hot = row_cells classes r\<rparr>)
                    (filter (\<lambda>(s, r). row_label r = l) (all_rows e split_list)))
             (first_seen (map (\<lambda>(s, r). row_label r) (all_rows e split_list))))
       \<and> len ds = length (all_rows e split_list)
       \<and> mset (annotations ds) =
           mset (map (\<lambda>(s, r).
                   \<lparr>image_path =
                      Paths (sort (glob_star (files e) (image_root (row_dict classes s r)))),
                    label = row_label r, one_hot = row_cells classes r\<rparr>)
                  (all_rows e split_list))
       \<and> (\<forall>(s, r) \<in> set (all_rows e split_list).
             annotation r = Some (row_label r)
             \<and> image_root_of s r = Inr (image_root (row_dict classes s r))
             \<and> select_cells (cells r) classes = Inr (row_cells classes r))"
proof -
  from assms obtain annot where rd: "read_splits e classes split_list [] = Inr annot"
    and ds: "annotations ds = eval_annotations (files e) annot"
    by (auto simp: init_def split: sum.splits if_splits)
  have oh: "row_one_hot (row_dict classes s r) = row_cells classes r" for s r
    by (simp add: row_dict_def)
  have "read_splits e classes split_list (grouped []) = Inr annot"
    using rd by (simp add: grouped_Nil)
  from read_splits_grouped[OF this]
  have "annot = grouped (map (\<lambda>(s, r). (row_label r, row_dict classes s r))
                  (all_rows e split_list))"
    by simp
  then have O: "annotations ds =
           concat (map (\<lambda>l. map (\<lambda>(s, r).
                     \<lparr>image_path =
                        Paths (sort (glob_star (files e) (image_root (row_dict classes s r)))),
                      label = l, one_hot = row_cells classes r\<rparr>)
                    (filter (\<lambda>(s, r). row_label r = l) (all_rows e split_list)))
             (first_seen (map (\<lambda>(s, r). row_label r) (all_rows e split_list))))"
    by (simp add: ds eval_annotations_grouped eval_entry_def oh)
  have m: "mset (entries annot) =
     mset (map (\<lambda>(s, r). (row_label r, row_dict classes s r)) (all_rows e split_list))"
    using read_splits_entries[OF rd] by (simp add: entries_Nil)
  have "mset (annotations ds) =
          image_mset (\<lambda>(l, d). eval_entry (files e) l d) (mset (entries annot))"
    by (simp add: ds eval_annotations_entries)
  also have "\<dots> =
      mset (map (\<lambda>(s, r). eval_entry (files e) (row_label r) (row_dict classes s r))
             (all_rows e split_list))"
    by (simp add: m multiset.map_comp comp_def case_prod_unfold)
  finally have A: "mset (annotations ds) =
      mset (map (\<lambda>(s, r). eval_entry (files e) (row_label r) (row_dict classes s r))
             (all_rows e split_list))" .
  have B: "len ds = length (all_rows e split_list)"
    using arg_cong[OF A, of size] by (simp add: len_def)
  have C: "\<forall>(s, r) \<in> set (all_rows e split_list).
             annotation r = Some (row_label r)
             \<and> image_root_of s r = Inr (image_root (row_dict classes s r))
             \<and> select_cells (cells r) classes = Inr (row_cells classes r)"
    using read_splits_cells[OF rd] by blast
  from A have A': "mset (annotations ds) =
           mset (map (\<lambda>(s, r).
                   \<lparr>image_path =
                      Paths (sort (glob_star (files e) (image_root (row_dict classes s r)))),
                    label = row_label r, one_hot = row_cells classes r\<rparr>)
                  (all_rows e split_list))"
    by (simp add: eval_entry_def oh)
  from O B A' C show ?thesis by blast
qed

theorem eval_one_entry_per_row_witness:
  "init example_env [''s''] [''A'', ''B''] False [] =
     Inr \<lparr>annotations =
            [\<lparr>image_path = Paths [''s/01_0001_a.png'', ''s/01_0001_b.png''],
               label = ''A'', one_hot = [1, 0]\<rparr>,
             \<lparr>image_path = Paths [''s/01_0004.png''], label = ''A'', one_hot = [1, 0]\<rparr>,
             \<lparr>image_path = Paths [''s/01_0002.png''], label = ''B'', one_hot = [0, 1]\<rparr>,
             \<lparr>image_path = Paths [''s/01_0003.png''], label = ''B'', one_hot = [0, 1]\<rparr>,
             \<lparr>image_path = Paths [''s/01_0005.png''], label = ''B'', one_hot = [0, 1]\<rparr>],
          train = False, list_classes = [''A'', ''B'']\<rparr>
   \<and> map (\<lambda>(s, r). row_label r) (all_rows example_env [''s'']) =
       [''A'', ''B'', ''B'', ''A'', ''B'']
   \<and> first_seen [''A'', ''B'', ''B'', ''A'', ''B''] = [''A'', ''B'']
   \<and> length (all_rows example_env [''s'']) = 5"
proof -
  have h: "init example_env [''s''] [''A'', ''B''] False [] =
     Inr \<lparr>annotations =
            [\<lparr>image_path = Paths [''s/01_0001_a.png'', ''s/01_0001_b.png''],
               label = ''A'', one_hot = [1, 0]\<rparr>,
             \<lparr>image_path = Paths [''s/01_0004.png''], label = ''A'', one_hot = [1, 0]\<rparr>,
             \<lparr>image_path = Paths [''s/01_0002.png''], label = ''B'', one_hot = [0, 1]\<rparr>,
             \<lparr>image_path = Paths [''s/01_0003.png''], label = ''B'', one_hot = [0, 1]\<rparr>,
             \<lparr>image_path = Paths [''s/01_0005.png''], label = ''B'', one_hot = [0, 1]\<rparr>],
          train = False, list_classes = [''A'', ''B'']\<rparr>"
    by code_simp
  have l: "map (\<lambda>(s, r). row_label r) (all_rows example_env [''s'']) =
       [''A'', ''B'', ''B'', ''A'', ''B'']"
    by code_simp
  have f: "first_seen [''A'', ''B'', ''B'', ''A'', ''B''] = [''A'', ''B'']"
    by code_simp
  from eval_one_entry_per_row[OF h] have "length (all_rows example_env [''s'']) = 5"
    by (simp add: len_def)
  with h l f show ?thesis by blast
qed

subsection \<open>Annotation tables of the splits\<close>












subsection \<open>No empty dataset\<close>

text \<open>
  C5. The constructor never returns a dataset without entries: when the tables are read
  and no entry is produced, it fails, with \<open>ValueError\<close> from \<^verbatim>\<open>max\<close> of line 67 (train mode,
  no row at all) or with \<open>IndexError\<close> from \<^verbatim>\<open>self.annotations[0]\<close> of line 123.
\<close>

theorem empty_construction_fails:
  "(\<forall>ds. init e split_list classes tr rng = Inr ds \<longrightarrow> annotations ds \<noteq> [])
   \<and> (\<forall>annot. read_splits e classes split_list [] = Inr annot \<longrightarrow>
         (if tr then annot = [] \<or> train_annotations (files e) annot rng = Inr []
          else eval_annotations (files e) annot = []) \<longrightarrow>
         init e split_list classes tr rng = Inl ValueError
         \<or> init e split_list classes tr rng = Inl IndexError)"
  by (auto simp: init_def train_annotations_def split: sum.splits if_splits)

theorem empty_construction_fails_witness:
  "init example_env [''s''] [''A'', ''B''] True [1, 0, 2] =
     Inr \<lparr>annotations = example_train, train = True, list_classes = [''A'', ''B'']\<rparr>
   \<and> example_train \<noteq> []
   \<and> read_splits empty_env [''A'', ''B''] [''s''] [] = Inr []
   \<and> init empty_env [''s''] [''A'', ''B''] True [] = Inl ValueError
   \<and> eval_annotations (files empty_env) [] = []
   \<and> init empty_env [''s''] [''A'', ''B''] False [] = Inl IndexError
   \<and> (init imageless_env [''s''] [''A'', ''B''] True [] = Inl ValueError
      \<or> init imageless_env [''s''] [''A'', ''B''] True [] = Inl IndexError)"
proof -
  have h1: "init example_env [''s''] [''A'', ''B''] True [1, 0, 2] =
     Inr \<lparr>annotations = example_train, train = True, list_classes = [''A'', ''B'']\<rparr>"
    by code_simp
  from empty_construction_fails[of example_env "[''s'']" "[''A'', ''B'']" True "[1, 0, 2]"] h1
  have a: "example_train \<noteq> []" by simp
  have h2: "read_splits empty_env [''A'', ''B''] [''s''] [] = Inr []" by code_simp
  have v1: "init empty_env [''s''] [''A'', ''B''] True [] = Inl ValueError" by code_simp
  have h3: "eval_annotations (files empty_env) [] = []" by (simp add: eval_annotations_def)
  have v2: "init empty_env [''s''] [''A'', ''B''] False [] = Inl IndexError" by code_simp
  have h4: "read_splits imageless_env [''A'', ''B''] [''s''] [] =
              Inr [(''A'', [\<lparr>image_root = ''s/01_0001'', row_one_hot = [1, 0]\<rparr>])]"
    by code_simp
  have h5: "train_annotations (files imageless_env)
              [(''A'', [\<lparr>image_root = ''s/01_0001'', row_one_hot = [1, 0]\<rparr>])] [] = Inr []"
    by code_simp
  from empty_construction_fails[of imageless_env "[''s'']" "[''A'', ''B'']" True "[]"] h4 h5
  have b: "init imageless_env [''s''] [''A'', ''B''] True [] = Inl ValueError
      \<or> init imageless_env [''s''] [''A'', ''B''] True [] = Inl IndexError"
    by simp
  from h1 a h2 v1 h3 v2 b show ?thesis by blast
qed

subsection \<open>Labels and one-hot vectors\<close>

lemma emitted_group_set: "set (emitted_group m sh) \<subseteq> set sh"
  by (auto simp: emitted_group_def dest: in_set_takeD)

lemma emitted_entries: "set (entries (emitted m annot rng)) \<subseteq> set (entries annot)"
proof (induction annot arbitrary: rng)
  case Nil
  then show ?case by simp
next
  case (Cons g annot)
  obtain l annot_list where g: "g = (l, annot_list)" by (cases g)
  obtain sh rng' where s: "shuffle annot_list rng = (sh, rng')"
    by (cases "shuffle annot_list rng")
  have "set sh = set annot_list" using shuffle_set[of annot_list rng] s by simp
  with emitted_group_set[of m sh] have "set (emitted_group m sh) \<subseteq> set annot_list" by simp
  then show ?case using Cons.IH[of rng'] g s by (auto simp: entries_Cons)
qed

lemma train_entry_origin:
  "a \<in> set (concat (map (\<lambda>(l, es). concat (map (expand fs l) es)) ems)) \<Longrightarrow>
   \<exists>(l, d) \<in> set (entries ems). label a = l \<and> one_hot a = row_one_hot d"
proof -
  assume "a \<in> set (concat (map (\<lambda>(l, es). concat (map (expand fs l) es)) ems))"
  then obtain l es d where m: "(l, es) \<in> set ems" "d \<in> set es" "a \<in> set (expand fs l d)"
    by auto
  then have "(l, d) \<in> set (entries ems)" by (force simp: entries_def)
  moreover have "label a = l \<and> one_hot a = row_one_hot d" using m(3) by (rule expand_label)
  ultimately show ?thesis by blast
qed

lemma eval_entry_origin:
  "a \<in> set (eval_annotations fs annot) \<Longrightarrow>
   \<exists>(l, d) \<in> set (entries annot). label a = l \<and> one_hot a = row_one_hot d"
  by (auto simp: eval_annotations_entries eval_entry_def)

lemma entry_origin:
  assumes "init e split_list classes tr rng = Inr ds" and "a \<in> set (annotations ds)"
  shows "\<exists>(s, r) \<in> set (all_rows e split_list).
           annotation r = Some (label a) \<and> one_hot a = row_cells classes r
           \<and> select_cells (cells r) classes = Inr (one_hot a)"
proof -
  from assms(1) obtain annot where rd: "read_splits e classes split_list [] = Inr annot"
    by (auto simp: init_def split: sum.splits)
  have ne: "groups_nonempty annot"
    using read_splits_nonempty[OF rd] by (simp add: groups_nonempty_def)
  have "\<exists>(l, d) \<in> set (entries annot). label a = l \<and> one_hot a = row_one_hot d"
  proof (cases tr)
    case True
    with assms(1) rd have t: "train_annotations (files e) annot rng = Inr (annotations ds)"
      by (auto simp: init_def split: sum.splits if_splits)
    then have "annot \<noteq> []" by (auto simp: train_annotations_def)
    then have "py_max (map (\<lambda>(l, g). length g) annot) =
                 Inr (Max (set (map (\<lambda>(l, g). length g) annot)))"
      by (intro py_max_Max) simp
    with t have "annotations ds =
        concat (map (\<lambda>(l, es). concat (map (expand (files e) l) es))
          (emitted (Max (set (map (\<lambda>(l, g). length g) annot))) annot rng))"
      using oversample_emitted[OF ne, of "files e" _ rng] by (simp add: train_annotations_def)
    with assms(2) train_entry_origin emitted_entries show ?thesis by fastforce
  next
    case False
    with assms(1) rd have "annotations ds = eval_annotations (files e) annot"
      by (auto simp: init_def split: sum.splits if_splits)
    with assms(2) eval_entry_origin show ?thesis by simp
  qed
  then obtain l d where ld: "(l, d) \<in> set (entries annot)"
    and a: "label a = l" "one_hot a = row_one_hot d" by auto
  have "set (entries annot) =
          set (map (\<lambda>(s, r). (row_label r, row_dict classes s r)) (all_rows e split_list))"
  proof -
    have "mset (entries annot) =
            mset (map (\<lambda>(s, r). (row_label r, row_dict classes s r)) (all_rows e split_list))"
      using read_splits_entries[OF rd] by (simp add: entries_Nil)
    then show ?thesis by (rule mset_eq_setD)
  qed
  with ld obtain s r where sr: "(s, r) \<in> set (all_rows e split_list)"
    and "l = row_label r" "d = row_dict classes s r" by auto
  with a have "label a = row_label r" "one_hot a = row_cells classes r"
    by (simp_all add: row_dict_def)
  with sr read_splits_cells[OF rd sr] show ?thesis by auto
qed

text \<open>
  C6 (as amended). Every entry of a constructed dataset, in either mode, carries the
  annotation of a row of the tables as its label and the class cells of that same row as
  its one-hot; so decoding the one-hot by argmax over the class list gives the label for
  every entry whenever it does for every row of the tables. The constructor does not
  compare the two columns.
\<close>

theorem one_hot_decodes_to_label:
  assumes "init e split_list classes tr rng = Inr ds"
      and "\<forall>(s, r) \<in> set (all_rows e split_list).
             decode_one_hot classes (row_cells classes r) = annotation r"
  shows "\<forall>a \<in> set (annotations ds).
           decode_one_hot (list_classes ds) (one_hot a) = Some (label a)
           \<and> (\<exists>(s, r) \<in> set (all_rows e split_list).
                 annotation r = Some (label a)
                 \<and> select_cells (cells r) classes = Inr (one_hot a))"
proof
  fix a assume a: "a \<in> set (annotations ds)"
  from assms(1) have lc: "list_classes ds = classes"
    by (auto simp: init_def split: sum.splits if_splits)
  from entry_origin[OF assms(1) a] obtain s r where sr: "(s, r) \<in> set (all_rows e split_list)"
    and l: "annotation r = Some (label a)" and o: "one_hot a = row_cells classes r"
    and c: "select_cells (cells r) classes = Inr (one_hot a)"
    by auto
  from assms(2) sr have "decode_one_hot classes (row_cells classes r) = annotation r"
    by auto
  with l o lc have "decode_one_hot (list_classes ds) (one_hot a) = Some (label a)" by simp
  moreover from sr l c have "\<exists>(s, r) \<in> set (all_rows e split_list).
      annotation r = Some (label a) \<and> select_cells (cells r) classes = Inr (one_hot a)"
    by auto
  ultimately show "decode_one_hot (list_classes ds) (one_hot a) = Some (label a)
           \<and> (\<exists>(s, r) \<in> set (all_rows e split_list).
                 annotation r = Some (label a)
                 \<and> select_cells (cells r) classes = Inr (one_hot a))"
    by blast
qed

text \<open>
  Against C6 as stated: a row annotated B whose class cells are 1 for A and 0 for B is
  built into an entry with label B whose one-hot decodes to A.
\<close>

theorem one_hot_decodes_to_label_counterexample:
  "init mislabelled_env [''s''] [''A'', ''B''] False [] =
     Inr \<lparr>annotations = [mislabelled_entry], train = False, list_classes = [''A'', ''B'']\<rparr>
   \<and> decode_one_hot [''A'', ''B''] (one_hot mislabelled_entry) = Some ''A''
   \<and> label mislabelled_entry = ''B''"
  by code_simp

theorem one_hot_decodes_to_label_witness:
  "init example_env [''s''] [''A'', ''B''] True [1, 0, 2] =
     Inr \<lparr>annotations = example_train, train = True, list_classes = [''A'', ''B'']\<rparr>
   \<and> list_all (\<lambda>(s, r). decode_one_hot [''A'', ''B''] (row_cells [''A'', ''B''] r) =
                          annotation r) (all_rows example_env [''s''])
   \<and> list_all (\<lambda>a. decode_one_hot [''A'', ''B''] (one_hot a) = Some (label a)) example_train"
proof -
  have h1: "init example_env [''s''] [''A'', ''B''] True [1, 0, 2] =
     Inr \<lparr>annotations = example_train, train = True, list_classes = [''A'', ''B'']\<rparr>"
    by code_simp
  have h2: "list_all (\<lambda>(s, r). decode_one_hot [''A'', ''B''] (row_cells [''A'', ''B''] r) =
                          annotation r) (all_rows example_env [''s''])"
    by code_simp
  then have "\<forall>(s, r) \<in> set (all_rows example_env [''s'']).
         decode_one_hot [''A'', ''B''] (row_cells [''A'', ''B''] r) = annotation r"
    unfolding list_all_iff .
  from one_hot_decodes_to_label[OF h1 this]
  have "list_all (\<lambda>a. decode_one_hot [''A'', ''B''] (one_hot a) = Some (label a)) example_train"
    unfolding list_all_iff by simp
  with h1 h2 show ?thesis by blast
qed

subsection \<open>Retrieval\<close>

lemma index_of_absent: "x \<notin> set xs \<Longrightarrow> index_of xs x = Inl ValueError"
  by (induction xs) auto

lemma index_of_present: "x \<in> set xs \<Longrightarrow> \<exists>i. index_of xs x = Inr i"
  by (induction xs) auto

text \<open>
  C7 (as amended). When the label of the entry at a valid index is not in the class list,
  retrieval fails in both modes. The images are read before the label is looked up: the
  failure is the \<open>ValueError\<close> of \<^verbatim>\<open>list.index\<close> when the image step succeeds, and the error of
  the image step otherwise.
\<close>

theorem absent_label_fails:
  assumes "subscript (annotations ds) index = Inr a" and "label a \<notin> set (list_classes ds)"
  shows "(\<forall>x. getitem decode ds index \<noteq> Inr x)
       \<and> getitem decode ds index =
           (if train ds
            then (case read_image decode a of Inl e \<Rightarrow> Inl e | Inr img \<Rightarrow> Inl ValueError)
            else (case read_images decode a of Inl e \<Rightarrow> Inl e | Inr images \<Rightarrow> Inl ValueError))"
  using assms by (auto simp: getitem_def index_of_absent split: sum.splits)

text \<open>
  Against C7 as stated: in the train dataset built from a table with the unlisted label C,
  an image that cannot be read ends the retrieval with \<open>TypeError\<close> although the label is
  absent from the class list.
\<close>

theorem absent_label_fails_counterexample:
  "init unlisted_env [''s''] [''A'', ''B''] True [] = Inr unlisted_dataset
   \<and> subscript (annotations unlisted_dataset) 0 =
       Inr \<lparr>image_path = Path ''s/01_0001.png'', label = ''C'', one_hot = [0, 0]\<rparr>
   \<and> ''C'' \<notin> set (list_classes unlisted_dataset)
   \<and> getitem (\<lambda>p. None :: nat option) unlisted_dataset 0 = Inl TypeError"
  by code_simp

theorem absent_label_fails_witness:
  "subscript (annotations unlisted_dataset) 0 =
       Inr \<lparr>image_path = Path ''s/01_0001.png'', label = ''C'', one_hot = [0, 0]\<rparr>
   \<and> label \<lparr>image_path = Path ''s/01_0001.png'', label = ''C'', one_hot = [0, 0]\<rparr>
       \<notin> set (list_classes unlisted_dataset)
   \<and> getitem (\<lambda>p. Some (length p)) unlisted_dataset 0 = Inl ValueError"
proof -
  have h1: "subscript (annotations unlisted_dataset) 0 =
       Inr \<lparr>image_path = Path ''s/01_0001.png'', label = ''C'', one_hot = [0, 0]\<rparr>"
    by (simp add: unlisted_dataset_def subscript_def)
  have h2: "label \<lparr>image_path = Path ''s/01_0001.png'', label = ''C'', one_hot = [0, 0]\<rparr>
       \<notin> set (list_classes unlisted_dataset)"
    by (simp add: unlisted_dataset_def)
  from absent_label_fails[OF h1 h2, of "\<lambda>p. Some (length p)"]
  have "getitem (\<lambda>p. Some (length p)) unlisted_dataset 0 = Inl ValueError"
    by (simp add: unlisted_dataset_def read_image_def)
  with h1 h2 show ?thesis by blast
qed

text \<open>
  C8. Retrieval at an index equal to or beyond the length fails with \<open>IndexError\<close>; at an
  index from 0 up to the length the subscript succeeds with the entry at that position.
\<close>

theorem index_bounds:
  "(int (len ds) \<le> index \<longrightarrow> getitem decode ds index = Inl IndexError)
   \<and> (0 \<le> index \<and> index < int (len ds) \<longrightarrow>
        subscript (annotations ds) index = Inr (annotations ds ! nat index))"
  by (auto simp: getitem_def subscript_def len_def Let_def)

theorem index_bounds_witness:
  "len unlisted_dataset = 1
   \<and> getitem (\<lambda>p. Some (length p)) unlisted_dataset 1 = Inl IndexError
   \<and> subscript (annotations unlisted_dataset) 0 = Inr (annotations unlisted_dataset ! nat 0)"
proof -
  have n: "len unlisted_dataset = 1" by (simp add: len_def unlisted_dataset_def)
  from index_bounds[of unlisted_dataset 1 "\<lambda>p. Some (length p)"] n
  have a: "getitem (\<lambda>p. Some (length p)) unlisted_dataset 1 = Inl IndexError" by simp
  from index_bounds[of unlisted_dataset 0 "\<lambda>p. Some (length p)"] n
  have b: "subscript (annotations unlisted_dataset) 0 = Inr (annotations unlisted_dataset ! nat 0)"
    by simp
  from n a b show ?thesis by blast
qed

subsection \<open>The methods leave the object alone\<close>

lemma keeps_self_ret: "keeps_self (ret x)"
  by (simp add: keeps_self_def ret_def)

lemma keeps_self_lift: "keeps_self (lift r)"
  by (simp add: keeps_self_def lift_def)

lemma keeps_self_then_do:
  assumes "keeps_self m" and "\<And>x. keeps_self (f x)"
  shows "keeps_self (then_do m f)"
proof -
  have "self (snd (then_do m f s)) = self s" for s
  proof (cases "m s")
    case (Pair r s')
    from assms(1) Pair have s': "self s' = self s"
      by (auto simp: keeps_self_def dest: spec[of _ s])
    show ?thesis
    proof (cases r)
      case (Inl e)
      with Pair s' show ?thesis by (simp add: then_do_def)
    next
      case (Inr x)
      from assms(2)[of x] have "self (snd (f x s')) = self s'" by (simp add: keeps_self_def)
      with Pair Inr s' show ?thesis by (simp add: then_do_def)
    qed
  qed
  then show ?thesis by (simp add: keeps_self_def)
qed

lemma keeps_self_reads:
  "keeps_self (self_subscript index)" "keeps_self (entry_at j)" "keeps_self self_list_classes"
  "keeps_self (paths_at j)" "keeps_self len_m"
  by (simp_all add: keeps_self_def self_subscript_def entry_at_def self_list_classes_def
      paths_at_def len_m_def)

lemma keeps_self_assigns:
  "keeps_self (assign_img t)" "keeps_self (assign_image_paths j)"
  "keeps_self (assign_images ts)" "keeps_self (assign_label v)"
  by (simp_all add: keeps_self_def assign_img_def assign_image_paths_def assign_images_def
      assign_label_def)

lemma keeps_self_getitem_train: "keeps_self (getitem_train decode index)"
  unfolding getitem_train_def
  by (intro keeps_self_then_do keeps_self_reads keeps_self_assigns keeps_self_lift
      keeps_self_ret)

lemma keeps_self_getitem_eval: "keeps_self (getitem_eval decode index)"
  unfolding getitem_eval_def
  by (intro keeps_self_then_do keeps_self_reads keeps_self_assigns keeps_self_lift
      keeps_self_ret)

lemma keeps_self_getitem_m: "keeps_self (getitem_m decode index)"
  using keeps_self_getitem_train[of decode index] keeps_self_getitem_eval[of decode index]
  by (simp add: keeps_self_def getitem_m_def)

text \<open>The statements compute what the functions \<open>len\<close> and \<open>getitem\<close> give.\<close>

lemma subscript_position:
  "subscript xs i = (case position xs i of Inl e \<Rightarrow> Inl e | Inr j \<Rightarrow> Inr (xs ! j))"
  by (simp add: subscript_def position_def)

lemma getitem_train_result:
  "train (self s) \<Longrightarrow> fst (getitem_train decode index s) = getitem decode (self s) index"
  by (simp add: getitem_train_def getitem_def subscript_position then_do_def
      self_subscript_def entry_at_def lift_def assign_img_def assign_label_def
      self_list_classes_def ret_def split: sum.splits)

lemma getitem_eval_result:
  "\<not> train (self s) \<Longrightarrow> fst (getitem_eval decode index s) = getitem decode (self s) index"
  by (simp add: getitem_eval_def getitem_def subscript_position then_do_def
      self_subscript_def entry_at_def lift_def assign_image_paths_def assign_images_def
      assign_label_def self_list_classes_def paths_at_def read_images_def ret_def
      split: sum.splits)

lemma getitem_m_result: "fst (getitem_m decode index s) = getitem decode (self s) index"
  by (simp add: getitem_m_def getitem_train_result getitem_eval_result)

lemma call_method_keeps: "snd (call_method decode ds c) = ds"
proof (cases c)
  case Len
  then show ?thesis by (simp add: len_m_def fresh_def)
next
  case (GetItem i)
  have "self (snd (getitem_m decode i (fresh ds))) = ds"
    using keeps_self_getitem_m[of decode i] by (simp add: keeps_self_def fresh_def)
  with GetItem show ?thesis by (cases "getitem_m decode i (fresh ds)") auto
qed

lemma call_method_reply:
  "fst (call_method decode ds Len) = LenReply (Inr (len ds))"
  "fst (call_method decode ds (GetItem i)) = ItemReply (getitem decode ds i)"
proof -
  show "fst (call_method decode ds Len) = LenReply (Inr (len ds))"
    by (simp add: len_m_def len_def fresh_def)
  have "fst (getitem_m decode i (fresh ds)) = getitem decode ds i"
    by (simp add: getitem_m_result fresh_def)
  then show "fst (call_method decode ds (GetItem i)) = ItemReply (getitem decode ds i)"
    by (cases "getitem_m decode i (fresh ds)") auto
qed

text \<open>
  C9. Neither the length query nor retrieval changes the dataset. Run statement by
  statement from any state, each of the two methods leaves the object \<^verbatim>\<open>self\<close> of the
  state as it found it, on every path, the raising ones included, while the local
  variables of the call do change. So after any sequence of calls the list of entries,
  with its paths, labels, one-hots and order, is the list before the calls, and every
  reply is the one the call gives on the original dataset: the length, and what
  \<open>getitem\<close> returns.
\<close>

theorem calls_leave_dataset_unchanged:
  "self (snd (len_m s)) = self s
   \<and> self (snd (getitem_m decode index s)) = self s
   \<and> fst (getitem_m decode index s) = getitem decode (self s) index
   \<and> snd (run_calls decode ds calls) = ds
   \<and> annotations (snd (run_calls decode ds calls)) = annotations ds
   \<and> fst (run_calls decode ds calls) = map (\<lambda>c. fst (call_method decode ds c)) calls"
proof -
  have A: "self (snd (len_m s)) = self s"
    by (simp add: len_m_def)
  have B: "self (snd (getitem_m decode index s)) = self s"
    using keeps_self_getitem_m[of decode index] by (simp add: keeps_self_def)
  have C: "run_calls decode ds calls = (map (\<lambda>c. fst (call_method decode ds c)) calls, ds)"
  proof (induction calls)
    case Nil
    then show ?case by simp
  next
    case (Cons c calls)
    obtain r where r: "call_method decode ds c = (r, ds)"
      using call_method_keeps[of decode ds c] by (cases "call_method decode ds c") auto
    with Cons.IH show ?case by (simp del: call_method.simps)
  qed
  from A B C getitem_m_result[of decode index s] show ?thesis by simp
qed

text \<open>
  On the train dataset of the small disk and on a one-entry eval dataset: calls, one of
  them out of range, return the dataset they were given, and a call of \<^verbatim>\<open>__getitem__\<close> has
  bound its local variables.
\<close>

theorem calls_leave_dataset_unchanged_witness:
  "run_calls (\<lambda>p. Some (length p))
     \<lparr>annotations = example_train, train = True, list_classes = [''A'', ''B'']\<rparr>
     [Len, GetItem 0, GetItem (- 1), GetItem 8] =
   ([LenReply (Inr 8), ItemReply (Inr (TrainItem 15 0)), ItemReply (Inr (TrainItem 13 1)),
     ItemReply (Inl IndexError)],
    \<lparr>annotations = example_train, train = True, list_classes = [''A'', ''B'']\<rparr>)
   \<and> v_label (snd (getitem_m (\<lambda>p. Some (length p)) 0
        (fresh \<lparr>annotations = example_train, train = True, list_classes = [''A'', ''B'']\<rparr>))) =
       Some (LabelNum 0)
   \<and> self (snd (getitem_m (\<lambda>p. Some (length p)) 0
        (fresh \<lparr>annotations = example_train, train = True, list_classes = [''A'', ''B'']\<rparr>))) =
       \<lparr>annotations = example_train, train = True, list_classes = [''A'', ''B'']\<rparr>
   \<and> run_calls (\<lambda>p. Some (length p))
       \<lparr>annotations = [mislabelled_entry], train = False, list_classes = [''A'', ''B'']\<rparr>
       [GetItem 0, Len, GetItem (- 2)] =
     ([ItemReply (Inr (EvalItem [13] 1)), LenReply (Inr 1), ItemReply (Inl IndexError)],
      \<lparr>annotations = [mislabelled_entry], train = False, list_classes = [''A'', ''B'']\<rparr>)
   \<and> v_image_paths (snd (getitem_m (\<lambda>p. Some (length p)) (- 1)
        (fresh \<lparr>annotations = [mislabelled_entry], train = False,
                 list_classes = [''A'', ''B'']\<rparr>))) = Some 0"
proof -
  let ?ds = "\<lparr>annotations = example_train, train = True, list_classes = [''A'', ''B'']\<rparr>"
  let ?dec = "\<lambda>p :: string. Some (length p)"
  let ?calls = "[Len, GetItem 0, GetItem (- 1), GetItem 8]"
  from calls_leave_dataset_unchanged[of "fresh ?ds" ?dec 0 ?ds ?calls]
  have s: "self (snd (getitem_m ?dec 0 (fresh ?ds))) = ?ds"
    and d: "snd (run_calls ?dec ?ds ?calls) = ?ds"
    and r: "fst (run_calls ?dec ?ds ?calls) = map (\<lambda>c. fst (call_method ?dec ?ds c)) ?calls"
    by (simp_all add: fresh_def)
  have m: "map (\<lambda>c. fst (call_method ?dec ?ds c)) ?calls =
      [LenReply (Inr 8), ItemReply (Inr (TrainItem 15 0)), ItemReply (Inr (TrainItem 13 1)),
       ItemReply (Inl IndexError)]"
    by code_simp
  have l: "v_label (snd (getitem_m ?dec 0 (fresh ?ds))) = Some (LabelNum 0)"
    by code_simp
  from d r m have "run_calls ?dec ?ds ?calls =
      ([LenReply (Inr 8), ItemReply (Inr (TrainItem 15 0)), ItemReply (Inr (TrainItem 13 1)),
        ItemReply (Inl IndexError)], ?ds)"
    by (simp add: prod_eq_iff)
  note train_run = this
  let ?eds = "\<lparr>annotations = [mislabelled_entry], train = False, list_classes = [''A'', ''B'']\<rparr>"
  let ?ecalls = "[GetItem 0, Len, GetItem (- 2)]"
  from calls_leave_dataset_unchanged[of "fresh ?eds" ?dec 0 ?eds ?ecalls]
  have ed: "snd (run_calls ?dec ?eds ?ecalls) = ?eds"
    and er: "fst (run_calls ?dec ?eds ?ecalls) =
               map (\<lambda>c. fst (call_method ?dec ?eds c)) ?ecalls"
    by simp_all
  have em: "map (\<lambda>c. fst (call_method ?dec ?eds c)) ?ecalls =
      [ItemReply (Inr (EvalItem [13] 1)), LenReply (Inr 1), ItemReply (Inl IndexError)]"
    by code_simp
  have el: "v_image_paths (snd (getitem_m ?dec (- 1) (fresh ?eds))) = Some 0"
    by code_simp
  from ed er em have "run_calls ?dec ?eds ?ecalls =
      ([ItemReply (Inr (EvalItem [13] 1)), LenReply (Inr 1), ItemReply (Inl IndexError)], ?eds)"
    by (simp add: prod_eq_iff)
  with train_run l s el show ?thesis by blast
qed

subsection \<open>Negative indices\<close>

text \<open>
  C10 (as amended). For \<open>1 \<le> k \<le> len\<close> the subscript at \<open>- k\<close> selects the entry at
  position \<open>len - k\<close>, and retrieval at \<open>- k\<close> returns exactly what retrieval at \<open>len - k\<close>
  returns, for the same outcome of the image step: the same item, or the same error.
\<close>

theorem negative_index_counts_from_end:
  assumes "1 \<le> k" and "k \<le> int (len ds)"
  shows "getitem decode ds (- k) = getitem decode ds (int (len ds) - k)
       \<and> subscript (annotations ds) (- k) = Inr (annotations ds ! (len ds - nat k))"
proof -
  have "nat (int (length (annotations ds)) - k) = length (annotations ds) - nat k"
    using assms by (simp add: len_def nat_diff_distrib)
  then have "subscript (annotations ds) (- k) = Inr (annotations ds ! (len ds - nat k))"
    and "subscript (annotations ds) (int (len ds) - k)  = Inr (annotations ds ! (len ds - nat k))"
    using assms by (auto simp: subscript_def len_def Let_def)
  then show ?thesis by (simp add: getitem_def)
qed

text \<open>
  Against C10 as stated: in the one-entry train dataset built from a table with the
  unlisted label C, retrieval at \<open>- 1\<close> does not succeed; it fails as retrieval at 0 does.
\<close>

theorem negative_index_counterexample:
  "init unlisted_env [''s''] [''A'', ''B''] True [] = Inr unlisted_dataset
   \<and> len unlisted_dataset = 1
   \<and> getitem (\<lambda>p. Some (length p)) unlisted_dataset (- 1) = Inl ValueError"
  by code_simp

theorem negative_index_counts_from_end_witness:
  "(1::int) \<le> 2 \<and> 2 \<le> int (len \<lparr>annotations = example_train, train = True, list_classes = [''A'', ''B'']\<rparr>)
   \<and> getitem (\<lambda>p. Some (length p)) \<lparr>annotations = example_train, train = True, list_classes = [''A'', ''B'']\<rparr> (- 2)
     = getitem (\<lambda>p. Some (length p)) \<lparr>annotations = example_train, train = True, list_classes = [''A'', ''B'']\<rparr> 6
   \<and> getitem (\<lambda>p. Some (length p)) \<lparr>annotations = example_train, train = True, list_classes = [''A'', ''B'']\<rparr> 6
       = Inr (TrainItem 13 1)"
proof -
  let ?ds = "\<lparr>annotations = example_train, train = True, list_classes = [''A'', ''B'']\<rparr>"
  have n: "int (len ?ds) = 8" by (simp add: len_def example_train_def)
  have h1: "(1::int) \<le> 2" by simp
  have h2: "2 \<le> int (len ?ds)" using n by simp
  from negative_index_counts_from_end[OF h1 h2, of "\<lambda>p. Some (length p)"]
  have a: "getitem (\<lambda>p. Some (length p)) ?ds (- 2) = getitem (\<lambda>p. Some (length p)) ?ds 6"
    unfolding n by simp
  have b: "getitem (\<lambda>p. Some (length p)) ?ds 6 = Inr (TrainItem 13 1)"
    by code_simp
  from h1 h2 a b show ?thesis by blast
qed

end
